theory Spec2Isabelle
  imports Main "HOL-Library.Multiset"
begin

section \<open>Synced lyrics: data model, LRC parser and aggregating searcher\<close>

text \<open>
  A shallow embedding of \<^verbatim>\<open>ytmusicapi/providers/base.py\<close> and
  \<^verbatim>\<open>ytmusicapi/providers/searcher.py\<close>.

  Conventions of the model.
  \<^item> In the parser and the searcher a Python \<^verbatim>\<open>str\<close> is a \<^typ>\<open>string\<close>; a
    \<^typ>\<open>char\<close> stands for a code point below 256. On these code points the regular
    expression class \<^verbatim>\<open>\d\<close> is exactly the ten characters \<^verbatim>\<open>0\<close> to \<^verbatim>\<open>9\<close>, and
    \<^verbatim>\<open>str.isspace\<close> holds exactly for the code points 9 to 13, 28 to 32, 133 and 160.
  \<^item> The classifier \<^verbatim>\<open>_is_synced\<close> is modelled on every Python \<^verbatim>\<open>str\<close> as well: there a
    string is a list of code points (\<^typ>\<open>nat list\<close>) and \<^verbatim>\<open>\d\<close> is the class of the
    Unicode decimal digits, as \<^verbatim>\<open>re\<close> has it for a \<^verbatim>\<open>str\<close> pattern without
    \<^verbatim>\<open>re.ASCII\<close>.
  \<^item> Python integers are unbounded: \<^typ>\<open>int\<close>.
  \<^item> An exception is a value of type \<open>error\<close>; a function that can raise returns
    \<open>error + 'a\<close>. Only exceptions derived from Python's \<^verbatim>\<open>Exception\<close> are modelled.
\<close>

subsection \<open>base.py: LyricLine and SyncedLyrics\<close>

record LyricLine =
  timestamp :: string
  line_text :: string
  milliseconds :: int

record SyncedLyrics =
  track :: string
  artist :: string
  lrc :: string
  lines :: "LyricLine list"
  source :: string

text \<open>
  \<^verbatim>\<open>get_line_at\<close>: the loop over \<^verbatim>\<open>self.lines\<close> carries \<^verbatim>\<open>current_line\<close> and
  stops (\<^verbatim>\<open>break\<close>) at the first line later than the requested time.
\<close>

fun get_line_at_loop :: "LyricLine list \<Rightarrow> int \<Rightarrow> LyricLine option \<Rightarrow> LyricLine option" where
  "get_line_at_loop [] ms current_line = current_line"
| "get_line_at_loop (line # rest) ms current_line =
     (if milliseconds line \<le> ms then get_line_at_loop rest ms (Some line)
      else current_line)"

definition get_line_at :: "SyncedLyrics \<Rightarrow> int \<Rightarrow> LyricLine option" where
  "get_line_at self ms = get_line_at_loop (lines self) ms None"

subsection \<open>Characters, and the string methods the parser uses\<close>

definition isdigit :: "char \<Rightarrow> bool" where
  "isdigit c = (48 \<le> (of_char c :: nat) \<and> (of_char c :: nat) \<le> 57)"

definition isspace :: "char \<Rightarrow> bool" where
  "isspace c =
     (let n = (of_char c :: nat)
      in (9 \<le> n \<and> n \<le> 13) \<or> (28 \<le> n \<and> n \<le> 32) \<or> n = 133 \<or> n = 160)"

text \<open>\<^verbatim>\<open>s.strip()\<close>: white space removed at both ends.\<close>

definition strip :: "string \<Rightarrow> string" where
  "strip s = rev (dropWhile isspace (rev (dropWhile isspace s)))"

text \<open>\<^verbatim>\<open>s.ljust(n, c)\<close>: \<open>s\<close> padded on the right with \<open>c\<close> up to length \<open>n\<close>.\<close>

definition ljust :: "string \<Rightarrow> nat \<Rightarrow> char \<Rightarrow> string" where
  "ljust s n c = s @ replicate (n - length s) c"

text \<open>
  \<^verbatim>\<open>s.split('\n')\<close>: the pieces between line feeds; the empty string gives one empty
  piece. \<open>cur\<close> is the piece read so far.
\<close>

abbreviation LF :: char where
  "LF \<equiv> CHR 0x0A"

fun split_acc :: "string \<Rightarrow> string \<Rightarrow> string list" where
  "split_acc cur [] = [cur]"
| "split_acc cur (c # cs) =
     (if c = LF then cur # split_acc [] cs else split_acc (cur @ [c]) cs)"

definition split_lines :: "string \<Rightarrow> string list" where
  "split_lines s = split_acc [] s"

text \<open>\<^verbatim>\<open>'\n'.join(ls)\<close>, used to build a text from its lines.\<close>

fun join_lines :: "string list \<Rightarrow> string" where
  "join_lines [] = []"
| "join_lines [l] = l"
| "join_lines (l # m # ls) = l @ LF # join_lines (m # ls)"

datatype error = ValueError | KeyError | OtherException

text \<open>
  \<^verbatim>\<open>int(s)\<close> on a non-empty string of decimal digits. On any other string the model
  raises \<^verbatim>\<open>ValueError\<close>; Python's \<^verbatim>\<open>int\<close> accepts a few more strings (signs, blanks,
  underscores), so the model raises at least as often as the code.
\<close>

definition digit_val :: "char \<Rightarrow> int" where
  "digit_val c = int (of_char c) - 48"

definition dec_value :: "string \<Rightarrow> int" where
  "dec_value s = foldl (\<lambda>a c. 10 * a + digit_val c) 0 s"

definition py_int :: "string \<Rightarrow> error + int" where
  "py_int s = (if s \<noteq> [] \<and> list_all isdigit s then Inr (dec_value s) else Inl ValueError)"

subsection \<open>searcher.py: the classifier\<close>

text \<open>
  \<^verbatim>\<open>re.search(r'\[\d{2}:\d{2}', lrc)\<close> on a string of code points below 256:
  \<open>synced_here\<close> is a match of the pattern at the start of the string, \<open>is_synced\<close>
  tries every position from left to right.
\<close>

fun synced_here :: "string \<Rightarrow> bool" where
  "synced_here (c0 # d1 # d2 # c1 # d3 # d4 # _) =
     (c0 = CHR ''['' \<and> isdigit d1 \<and> isdigit d2 \<and> c1 = CHR '':'' \<and> isdigit d3 \<and> isdigit d4)"
| "synced_here _ = False"

fun is_synced :: "string \<Rightarrow> bool" where
  "is_synced [] = False"
| "is_synced (c # cs) = (synced_here (c # cs) \<or> is_synced cs)"

subsection \<open>searcher.py: the classifier on every Python string\<close>

text \<open>
  A Python \<^verbatim>\<open>str\<close> is a sequence of code points, here natural numbers. On a \<^verbatim>\<open>str\<close>
  the class \<^verbatim>\<open>\d\<close> matches the decimal digits of the Unicode database (category Nd).
  The table is that of Unicode 14.0, the database of CPython 3.11: each range holds the
  digits zero to nine of one script, the range from 120782 the five runs of mathematical
  digits.
\<close>

definition decimal_ranges :: "(nat \<times> nat) list" where
  "decimal_ranges =
     [(48, 57), (1632, 1641), (1776, 1785), (1984, 1993), (2406, 2415), (2534, 2543),
      (2662, 2671), (2790, 2799), (2918, 2927), (3046, 3055), (3174, 3183), (3302, 3311),
      (3430, 3439), (3558, 3567), (3664, 3673), (3792, 3801), (3872, 3881), (4160, 4169),
      (4240, 4249), (6112, 6121), (6160, 6169), (6470, 6479), (6608, 6617), (6784, 6793),
      (6800, 6809), (6992, 7001), (7088, 7097), (7232, 7241), (7248, 7257), (42528, 42537),
      (43216, 43225), (43264, 43273), (43472, 43481), (43504, 43513), (43600, 43609),
      (44016, 44025), (65296, 65305), (66720, 66729), (68912, 68921), (69734, 69743),
      (69872, 69881), (69942, 69951), (70096, 70105), (70384, 70393), (70736, 70745),
      (70864, 70873), (71248, 71257), (71360, 71369), (71472, 71481), (71904, 71913),
      (72016, 72025), (72784, 72793), (73040, 73049), (73120, 73129), (92768, 92777),
      (92864, 92873), (93008, 93017), (120782, 120831), (123200, 123209), (123632, 123641),
      (125264, 125273), (130032, 130041)]"

definition decimal_digit :: "nat \<Rightarrow> bool" where
  "decimal_digit cp = list_ex (\<lambda>(lo, hi). lo \<le> cp \<and> cp \<le> hi) decimal_ranges"

text \<open>
  \<^verbatim>\<open>re.search(r'\[\d{2}:\d{2}', lrc)\<close> on code points: \<open>0x5B\<close> is the opening bracket and
  \<open>0x3A\<close> the colon; \<open>tag_here\<close> is a match at the start of the string,
  \<open>is_synced_str\<close> tries every position from left to right.
\<close>

fun tag_here :: "nat list \<Rightarrow> bool" where
  "tag_here (c0 # d1 # d2 # c1 # d3 # d4 # _) =
     (c0 = 0x5B \<and> decimal_digit d1 \<and> decimal_digit d2 \<and> c1 = 0x3A
      \<and> decimal_digit d3 \<and> decimal_digit d4)"
| "tag_here _ = False"

fun is_synced_str :: "nat list \<Rightarrow> bool" where
  "is_synced_str [] = False"
| "is_synced_str (c # cs) = (tag_here (c # cs) \<or> is_synced_str cs)"

text \<open>The code points of a string of the parser's model.\<close>

definition code_points :: "string \<Rightarrow> nat list" where
  "code_points s = map of_char s"

subsection \<open>searcher.py: the LRC parser\<close>

text \<open>
  The pattern of \<^verbatim>\<open>_parse_lrc\<close> is
  \<^verbatim>\<open>\[(\d{2}):(\d{2})[\.:]+(\d{2,3})\](.*)\<close>, matched at the start of the line.

  \<open>match_fraction\<close> is the part \<^verbatim>\<open>(\d{2,3})\]\<close>: the greedy quantifier tries three
  digits first and falls back to two. It returns the digits and what follows the
  closing bracket.
\<close>

definition match_fraction :: "string \<Rightarrow> (string \<times> string) option" where
  "match_fraction r =
     (if 4 \<le> length r \<and> list_all isdigit (take 3 r) \<and> r ! 3 = CHR '']''
      then Some (take 3 r, drop 4 r)
      else if 3 \<le> length r \<and> list_all isdigit (take 2 r) \<and> r ! 2 = CHR '']''
      then Some (take 2 r, drop 3 r)
      else None)"

definition is_sep :: "char \<Rightarrow> bool" where
  "is_sep c = (c = CHR ''.'' \<or> c = CHR '':'')"

text \<open>
  \<open>re_match\<close> returns the four groups. The run \<^verbatim>\<open>[\.:]+\<close> is taken as long as it goes:
  a shorter run leaves a separator where a digit must follow, so backtracking into it
  never finds another match. The last group \<^verbatim>\<open>(.*)\<close> stops at a line feed.
\<close>

definition re_match :: "string \<Rightarrow> (string \<times> string \<times> string \<times> string) option" where
  "re_match line =
     (if 6 \<le> length line \<and> line ! 0 = CHR ''['' \<and> list_all isdigit (take 2 (drop 1 line))
         \<and> line ! 3 = CHR '':'' \<and> list_all isdigit (take 2 (drop 4 line))
      then (let after = drop 6 line;
                seps = takeWhile is_sep after;
                r = dropWhile is_sep after
            in if seps = [] then None
               else (case match_fraction r of
                       None \<Rightarrow> None
                     | Some (ms, t) \<Rightarrow>
                         Some (take 2 (drop 1 line), take 2 (drop 4 line), ms,
                               takeWhile (\<lambda>c. c \<noteq> LF) t)))
      else None)"

text \<open>
  The loop of \<^verbatim>\<open>_parse_lrc\<close> over the pieces of \<^verbatim>\<open>lrc.split('\n')\<close>; \<open>acc\<close> is the
  list \<^verbatim>\<open>lines\<close> built so far. Each \<^verbatim>\<open>int(...)\<close> can raise.
\<close>

fun parse_lrc_loop :: "string list \<Rightarrow> LyricLine list \<Rightarrow> error + LyricLine list" where
  "parse_lrc_loop [] acc = Inr acc"
| "parse_lrc_loop (raw # rest) acc =
     (let line = strip raw
      in if line = [] then parse_lrc_loop rest acc
         else (case re_match line of
                 None \<Rightarrow> parse_lrc_loop rest acc
               | Some (mins, secs, ms0, txt) \<Rightarrow>
                   (let ms = take 3 (ljust ms0 3 (CHR ''0''))
                    in (case py_int mins of
                          Inl e \<Rightarrow> Inl e
                        | Inr m \<Rightarrow>
                       (case py_int secs of
                          Inl e \<Rightarrow> Inl e
                        | Inr s \<Rightarrow>
                       (case py_int ms of
                          Inl e \<Rightarrow> Inl e
                        | Inr f \<Rightarrow>
                            parse_lrc_loop rest
                              (acc @ [\<lparr>timestamp = ''['' @ mins @ '':'' @ secs @ ''.'' @ take 2 ms @ '']'',
                                       line_text = strip txt,
                                       milliseconds = m * 60000 + s * 1000 + f\<rparr>])))))))"

text \<open>
  \<^verbatim>\<open>sorted(lines, key=lambda x: x.milliseconds)\<close> is a stable sort, and so is
  \<^const>\<open>sort_key\<close>; a stable sort by a key has only one possible result.
\<close>

definition parse_lrc :: "string \<Rightarrow> error + LyricLine list" where
  "parse_lrc s =
     (case parse_lrc_loop (split_lines s) [] of
        Inl e \<Rightarrow> Inl e
      | Inr ls \<Rightarrow> Inr (sort_key milliseconds ls))"

subsection \<open>searcher.py: providers and construction\<close>

text \<open>
  A provider instance is an object of one of the three provider classes. Calling a
  class creates a new object each time; the model numbers the objects of a searcher in
  the order of their creation (\<open>oid\<close>).
\<close>

datatype provider_class = LrcLibProvider | NetEaseProvider | MegalobizProvider

record provider =
  cls :: provider_class
  oid :: nat

definition PROVIDERS :: "(string \<times> provider_class) list" where
  "PROVIDERS = [(''lrclib'', LrcLibProvider), (''netease'', NetEaseProvider),
                (''megalobiz'', MegalobizProvider)]"

definition DEFAULT_ORDER :: "string list" where
  "DEFAULT_ORDER = [''lrclib'', ''netease'', ''megalobiz'']"

record SyncedLyricsSearcher =
  providers :: "(string \<times> provider) list"

text \<open>
  The loop of \<^verbatim>\<open>__init__\<close>; \<open>acc\<close> is \<^verbatim>\<open>self._providers\<close> so far. The subscript
  \<^verbatim>\<open>self.PROVIDERS[name]\<close> raises \<^verbatim>\<open>KeyError\<close> on a missing key.
\<close>

fun init_loop :: "string list \<Rightarrow> (string \<times> provider) list \<Rightarrow> error + (string \<times> provider) list" where
  "init_loop [] acc = Inr acc"
| "init_loop (name # rest) acc =
     (if map_of PROVIDERS name \<noteq> None
      then (case map_of PROVIDERS name of
              None \<Rightarrow> Inl KeyError
            | Some c \<Rightarrow> init_loop rest (acc @ [(name, \<lparr>cls = c, oid = length acc\<rparr>)]))
      else init_loop rest acc)"

definition init :: "string list option \<Rightarrow> error + SyncedLyricsSearcher" where
  "init providers_arg =
     (let names = (case providers_arg of None \<Rightarrow> DEFAULT_ORDER | Some ns \<Rightarrow> ns)
      in (case init_loop names [] of
            Inl e \<Rightarrow> Inl e
          | Inr ps \<Rightarrow> Inr \<lparr>providers = ps\<rparr>))"

definition available_providers :: "string list" where
  "available_providers = map fst PROVIDERS"

subsection \<open>searcher.py: search and search_all\<close>

text \<open>
  \<^verbatim>\<open>provider.get_lyrics(track, artist)\<close> goes to the network. Its result is a parameter
  of the model: an \<open>outcome\<close> for every provider object and query, either a returned
  \<^verbatim>\<open>Optional[str]\<close> or a raised exception.
\<close>

datatype outcome = Returns "string option" | Raises error

type_synonym get_lyrics = "provider \<Rightarrow> string \<Rightarrow> string \<Rightarrow> outcome"

text \<open>
  The body of the \<^verbatim>\<open>try\<close> block once \<^verbatim>\<open>lrc\<close> is known to be non-empty, up to the
  construction of the document; an exception inside it reaches the \<^verbatim>\<open>except\<close> clause.
\<close>

definition parsed_lines :: "bool \<Rightarrow> string \<Rightarrow> error + LyricLine list" where
  "parsed_lines synced s = (if synced then parse_lrc s else Inr [])"

fun search_loop :: "get_lyrics \<Rightarrow> (string \<times> provider) list \<Rightarrow> string \<Rightarrow> string \<Rightarrow> bool
    \<Rightarrow> SyncedLyrics option" where
  "search_loop g [] tr ar synced_only = None"
| "search_loop g ((provider_name, p) # rest) tr ar synced_only =
     (case g p tr ar of
        Raises e \<Rightarrow> search_loop g rest tr ar synced_only
      | Returns None \<Rightarrow> search_loop g rest tr ar synced_only
      | Returns (Some s) \<Rightarrow>
          (if s = [] then search_loop g rest tr ar synced_only
           else (let synced = is_synced s
                 in if synced_only \<and> \<not> synced then search_loop g rest tr ar synced_only
                    else (case parsed_lines synced s of
                            Inl e \<Rightarrow> search_loop g rest tr ar synced_only
                          | Inr ls \<Rightarrow>
                              Some \<lparr>track = tr, artist = ar, lrc = s, lines = ls,
                                    source = provider_name\<rparr>))))"

definition search :: "get_lyrics \<Rightarrow> SyncedLyricsSearcher \<Rightarrow> string \<Rightarrow> string \<Rightarrow> bool
    \<Rightarrow> SyncedLyrics option" where
  "search g self tr ar synced_only = search_loop g (providers self) tr ar synced_only"

fun search_all_loop :: "get_lyrics \<Rightarrow> (string \<times> provider) list \<Rightarrow> string \<Rightarrow> string
    \<Rightarrow> SyncedLyrics list \<Rightarrow> SyncedLyrics list" where
  "search_all_loop g [] tr ar results = results"
| "search_all_loop g ((provider_name, p) # rest) tr ar results =
     (case g p tr ar of
        Raises e \<Rightarrow> search_all_loop g rest tr ar results
      | Returns None \<Rightarrow> search_all_loop g rest tr ar results
      | Returns (Some s) \<Rightarrow>
          (if s = [] then search_all_loop g rest tr ar results
           else (case parsed_lines (is_synced s) s of
                   Inl e \<Rightarrow> search_all_loop g rest tr ar results
                 | Inr ls \<Rightarrow>
                     search_all_loop g rest tr ar
                       (results @ [\<lparr>track = tr, artist = ar, lrc = s, lines = ls,
                                     source = provider_name\<rparr>]))))"

definition search_all :: "get_lyrics \<Rightarrow> SyncedLyricsSearcher \<Rightarrow> string \<Rightarrow> string
    \<Rightarrow> SyncedLyrics list" where
  "search_all g self tr ar = search_all_loop g (providers self) tr ar []"

subsection \<open>Notions of the specification\<close>

text \<open>
  The raw text a provider produced for a query: what \<^verbatim>\<open>get_lyrics\<close> returned, and the
  empty string when it reported absence or raised.
\<close>

definition raw_text :: "get_lyrics \<Rightarrow> provider \<Rightarrow> string \<Rightarrow> string \<Rightarrow> string" where
  "raw_text g p tr ar = (case g p tr ar of Returns (Some s) \<Rightarrow> s | _ \<Rightarrow> [])"

text \<open>
  Following the specification: a result is acceptable when the raw text is not empty
  and, in synced-only mode, is classified as synced.
\<close>

definition acceptable :: "get_lyrics \<Rightarrow> provider \<Rightarrow> string \<Rightarrow> string \<Rightarrow> bool \<Rightarrow> bool" where
  "acceptable g p tr ar synced_only =
     (raw_text g p tr ar \<noteq> [] \<and> (synced_only \<longrightarrow> is_synced (raw_text g p tr ar)))"

text \<open>The same providers, with every empty string they return replaced by absence.\<close>

definition absent_for_empty :: "get_lyrics \<Rightarrow> get_lyrics" where
  "absent_for_empty g = (\<lambda>p tr ar. if g p tr ar = Returns (Some []) then Returns None else g p tr ar)"

subsection \<open>The entries of one piece\<close>

text \<open>
  What one piece of the split text adds to \<^verbatim>\<open>lines\<close>: the loop body run on that piece
  alone.
\<close>

definition line_entries :: "string \<Rightarrow> LyricLine list" where
  "line_entries raw = (case parse_lrc_loop [raw] [] of Inl e \<Rightarrow> [] | Inr out \<Rightarrow> out)"

subsection \<open>Example data\<close>

text \<open>The document of \<^verbatim>\<open>test_get_line_at\<close> in \<^verbatim>\<open>tests/test_lyrics.py\<close>.\<close>

definition ex_doc :: SyncedLyrics where
  "ex_doc = \<lparr>track = ''Test'', artist = ''Artist'', lrc = [],
        lines = [\<lparr>timestamp = ''[00:01.00]'', line_text = ''Line 1'', milliseconds = 1000\<rparr>,
                 \<lparr>timestamp = ''[00:05.00]'', line_text = ''Line 2'', milliseconds = 5000\<rparr>],
        source = []\<rparr>"

text \<open>
  A searcher with the default providers, and four behaviours of the network: a plain
  text followed by two synced ones; an exception and an absence followed by a synced
  text; an exception, an absence and an empty string; an empty string, a plain text and
  an exception.
\<close>

definition ex_providers :: "(string \<times> provider) list" where
  "ex_providers = [(''lrclib'', \<lparr>cls = LrcLibProvider, oid = 0\<rparr>),
                   (''netease'', \<lparr>cls = NetEaseProvider, oid = 1\<rparr>),
                   (''megalobiz'', \<lparr>cls = MegalobizProvider, oid = 2\<rparr>)]"

definition ex_plain_then_synced :: get_lyrics where
  "ex_plain_then_synced = (\<lambda>p tr ar.
     if oid p = 0 then Returns (Some ''Just plain text'')
     else if oid p = 1 then Returns (Some ''[00:01.00]Hello'')
     else Returns (Some ''[00:02.00]Later''))"

definition ex_failing_then_synced :: get_lyrics where
  "ex_failing_then_synced = (\<lambda>p tr ar.
     if oid p = 0 then Raises OtherException
     else if oid p = 1 then Returns None
     else Returns (Some ''[00:02.00]Later''))"

definition ex_all_failing :: get_lyrics where
  "ex_all_failing = (\<lambda>p tr ar.
     if oid p = 0 then Raises OtherException
     else if oid p = 1 then Returns None
     else Returns (Some []))"

definition ex_empty_then_plain :: get_lyrics where
  "ex_empty_then_plain = (\<lambda>p tr ar.
     if oid p = 0 then Returns (Some [])
     else if oid p = 1 then Returns (Some ''Just plain text'')
     else Raises OtherException)"

section \<open>Properties\<close>

subsection \<open>Lookup by playback position\<close>

lemma get_line_at_loop_takeWhile:
  "get_line_at_loop ls t cur =
     (if takeWhile (\<lambda>l. milliseconds l \<le> t) ls = [] then cur
      else Some (last (takeWhile (\<lambda>l. milliseconds l \<le> t) ls)))"
  by (induction ls arbitrary: cur) auto

lemma sorted_filter_takeWhile:
  "sorted (map milliseconds ls) \<Longrightarrow>
     filter (\<lambda>l. milliseconds l \<le> t) ls = takeWhile (\<lambda>l. milliseconds l \<le> t) ls"
proof (induction ls)
  case Nil
  then show ?case by simp
next
  case (Cons a ls)
  show ?case
  proof (cases "milliseconds a \<le> t")
    case True
    with Cons show ?thesis by simp
  next
    case False
    with Cons.prems have "\<forall>l \<in> set ls. \<not> milliseconds l \<le> t" by auto
    then have "filter (\<lambda>l. milliseconds l \<le> t) ls = []" by (simp add: filter_empty_conv)
    with False show ?thesis by simp
  qed
qed

text \<open>
  Claim C4. On a document whose lines are sorted by \<open>milliseconds\<close>, \<open>get_line_at\<close>
  returns the last line whose offset does not exceed the requested time, and nothing
  when there are no lines or the time precedes the first line. For lines at offsets 1000
  and 5000 the times 5000 and 7000 both give the line at 5000, and 500 gives nothing.
  The time need not be non-negative for this to hold.
\<close>

theorem get_line_at_last_not_exceeding:
  assumes "sorted (map milliseconds (lines d))"
  shows "(get_line_at d t =
            (if filter (\<lambda>l. milliseconds l \<le> t) (lines d) = [] then None
             else Some (last (filter (\<lambda>l. milliseconds l \<le> t) (lines d)))))
       \<and> (lines d = [] \<longrightarrow> get_line_at d t = None)
       \<and> (lines d \<noteq> [] \<and> t < milliseconds (hd (lines d)) \<longrightarrow> get_line_at d t = None)
       \<and> (lines d = [a, b] \<and> milliseconds a = 1000 \<and> milliseconds b = 5000 \<longrightarrow>
            get_line_at d 5000 = Some b \<and> get_line_at d 7000 = Some b \<and> get_line_at d 500 = None)"
proof -
  have 1: "get_line_at d t =
            (if filter (\<lambda>l. milliseconds l \<le> t) (lines d) = [] then None
             else Some (last (filter (\<lambda>l. milliseconds l \<le> t) (lines d))))"
    unfolding get_line_at_def sorted_filter_takeWhile [OF assms]
    by (rule get_line_at_loop_takeWhile)
  have 2: "lines d = [] \<longrightarrow> get_line_at d t = None"
    by (simp add: get_line_at_def)
  have 3: "lines d \<noteq> [] \<and> t < milliseconds (hd (lines d)) \<longrightarrow> get_line_at d t = None"
    by (cases "lines d") (auto simp: get_line_at_def)
  have 4: "lines d = [a, b] \<and> milliseconds a = 1000 \<and> milliseconds b = 5000 \<longrightarrow>
            get_line_at d 5000 = Some b \<and> get_line_at d 7000 = Some b \<and> get_line_at d 500 = None"
    by (simp add: get_line_at_def)
  from 1 2 3 4 show ?thesis by blast
qed

theorem get_line_at_last_not_exceeding_witness:
  "sorted (map milliseconds (lines ex_doc))
   \<and> get_line_at ex_doc 5000 = Some \<lparr>timestamp = ''[00:05.00]'', line_text = ''Line 2'', milliseconds = 5000\<rparr>
   \<and> get_line_at ex_doc 7000 = Some \<lparr>timestamp = ''[00:05.00]'', line_text = ''Line 2'', milliseconds = 5000\<rparr>
   \<and> get_line_at ex_doc 500 = None"
proof -
  have h: "sorted (map milliseconds (lines ex_doc))" by (simp add: ex_doc_def)
  show ?thesis
    using h get_line_at_last_not_exceeding [OF h, of 0
      "\<lparr>timestamp = ''[00:01.00]'', line_text = ''Line 1'', milliseconds = 1000\<rparr>"
      "\<lparr>timestamp = ''[00:05.00]'', line_text = ''Line 2'', milliseconds = 5000\<rparr>"]
    by (simp add: ex_doc_def)
qed

subsection \<open>The classifier\<close>

lemma synced_here_iff:
  "synced_here s \<longleftrightarrow>
     (\<exists>d1 d2 d3 d4 post. s = [CHR ''['', d1, d2, CHR '':'', d3, d4] @ post
        \<and> isdigit d1 \<and> isdigit d2 \<and> isdigit d3 \<and> isdigit d4)"
  by (cases s rule: synced_here.cases) auto

lemma is_synced_iff_suffix:
  "is_synced s \<longleftrightarrow> (\<exists>pre suf. s = pre @ suf \<and> synced_here suf)"
proof (induction s)
  case Nil
  then show ?case by simp
next
  case (Cons c cs)
  show ?case
  proof
    assume "is_synced (c # cs)"
    then consider "synced_here (c # cs)" | "is_synced cs" by auto
    then show "\<exists>pre suf. c # cs = pre @ suf \<and> synced_here suf"
    proof cases
      case 1
      then show ?thesis by (intro exI [of _ "[]"] exI [of _ "c # cs"]) simp
    next
      case 2
      with Cons obtain pre suf where "cs = pre @ suf" "synced_here suf" by blast
      then show ?thesis by (intro exI [of _ "c # pre"] exI [of _ suf]) simp
    qed
  next
    assume "\<exists>pre suf. c # cs = pre @ suf \<and> synced_here suf"
    then obtain pre suf where ps: "c # cs = pre @ suf" "synced_here suf" by blast
    show "is_synced (c # cs)"
    proof (cases pre)
      case Nil
      with ps have "synced_here (c # cs)" by simp
      then show ?thesis by simp
    next
      case (Cons p pre')
      with ps have "cs = pre' @ suf" by simp
      with ps Cons.IH have "is_synced cs" by blast
      then show ?thesis by simp
    qed
  qed
qed

lemma tag_here_iff:
  "tag_here u \<longleftrightarrow>
     (\<exists>d1 d2 d3 d4 post. u = [0x5B, d1, d2, 0x3A, d3, d4] @ post
        \<and> decimal_digit d1 \<and> decimal_digit d2 \<and> decimal_digit d3 \<and> decimal_digit d4)"
  by (cases u rule: tag_here.cases) auto

lemma is_synced_str_iff_suffix:
  "is_synced_str u \<longleftrightarrow> (\<exists>pre suf. u = pre @ suf \<and> tag_here suf)"
proof (induction u)
  case Nil
  then show ?case by simp
next
  case (Cons c cs)
  show ?case
  proof
    assume "is_synced_str (c # cs)"
    then consider "tag_here (c # cs)" | "is_synced_str cs" by auto
    then show "\<exists>pre suf. c # cs = pre @ suf \<and> tag_here suf"
    proof cases
      case 1
      then show ?thesis by (intro exI [of _ "[]"] exI [of _ "c # cs"]) simp
    next
      case 2
      with Cons obtain pre suf where "cs = pre @ suf" "tag_here suf" by blast
      then show ?thesis by (intro exI [of _ "c # pre"] exI [of _ suf]) simp
    qed
  next
    assume "\<exists>pre suf. c # cs = pre @ suf \<and> tag_here suf"
    then obtain pre suf where ps: "c # cs = pre @ suf" "tag_here suf" by blast
    show "is_synced_str (c # cs)"
    proof (cases pre)
      case Nil
      with ps have "tag_here (c # cs)" by simp
      then show ?thesis by simp
    next
      case (Cons p pre')
      with ps have "cs = pre' @ suf" by simp
      with ps Cons.IH have "is_synced_str cs" by blast
      then show ?thesis by simp
    qed
  qed
qed

lemma decimal_digit_below_256: "n < 256 \<Longrightarrow> decimal_digit n = (48 \<le> n \<and> n \<le> 57)"
  by (auto simp: decimal_digit_def decimal_ranges_def)

lemma decimal_digit_of_char: "decimal_digit (of_char c) = isdigit c"
  by (simp add: decimal_digit_below_256 isdigit_def)

lemma of_char_eq_bracket: "(of_char c = (0x5B :: nat)) = (c = CHR ''['')"
  using of_char_eq_iff [of c "CHR ''[''", where ?'a = nat] by simp

lemma of_char_eq_colon: "(of_char c = (0x3A :: nat)) = (c = CHR '':'')"
  using of_char_eq_iff [of c "CHR '':''", where ?'a = nat] by simp

lemma tag_here_code_points: "tag_here (code_points s) = synced_here s"
  by (cases s rule: synced_here.cases)
     (simp_all add: code_points_def decimal_digit_of_char of_char_eq_bracket of_char_eq_colon)

lemma is_synced_str_code_points: "is_synced_str (code_points s) = is_synced s"
proof (induction s)
  case Nil
  then show ?case by (simp add: code_points_def)
next
  case (Cons c cs)
  have "is_synced_str (code_points (c # cs))
          = (tag_here (code_points (c # cs)) \<or> is_synced_str (code_points cs))"
    by (simp add: code_points_def)
  then show ?case by (simp add: Cons tag_here_code_points del: synced_here.simps)
qed

text \<open>
  Claim C6. On every Python string, \<open>is_synced_str\<close> holds exactly when the string
  contains an opening bracket, two digits, a colon and two digits in a row, the digits
  being those that \<^verbatim>\<open>\d\<close> matches; \<^verbatim>\<open>[00:01.00]Hello\<close> is synced,
  \<^verbatim>\<open>Just plain text\<close> is not, and a tag written in Arabic-Indic digits is synced too.
  On the strings of code points below 256, where the digits are \<^verbatim>\<open>0\<close> to \<^verbatim>\<open>9\<close>,
  \<open>is_synced\<close> is the same classifier.
\<close>

theorem is_synced_iff_contains_tag:
  "(is_synced_str u \<longleftrightarrow>
      (\<exists>pre d1 d2 d3 d4 post. u = pre @ [0x5B, d1, d2, 0x3A, d3, d4] @ post
         \<and> decimal_digit d1 \<and> decimal_digit d2 \<and> decimal_digit d3 \<and> decimal_digit d4))
   \<and> is_synced_str (code_points ''[00:01.00]Hello'')
   \<and> \<not> is_synced_str (code_points ''Just plain text'')
   \<and> is_synced_str [0x5B, 0x0660, 0x0661, 0x3A, 0x0660, 0x0662, 0x2E, 0x0660, 0x0660, 0x5D, 0x41]
   \<and> is_synced s = is_synced_str (code_points s)
   \<and> (is_synced s \<longleftrightarrow>
      (\<exists>pre d1 d2 d3 d4 post. s = pre @ [CHR ''['', d1, d2, CHR '':'', d3, d4] @ post
         \<and> isdigit d1 \<and> isdigit d2 \<and> isdigit d3 \<and> isdigit d4))"
proof (intro conjI)
  show "is_synced_str u \<longleftrightarrow>
      (\<exists>pre d1 d2 d3 d4 post. u = pre @ [0x5B, d1, d2, 0x3A, d3, d4] @ post
         \<and> decimal_digit d1 \<and> decimal_digit d2 \<and> decimal_digit d3 \<and> decimal_digit d4)"
    unfolding is_synced_str_iff_suffix tag_here_iff by blast
  show "is_synced_str (code_points ''[00:01.00]Hello'')"
    by (simp add: is_synced_str_code_points isdigit_def)
  show "\<not> is_synced_str (code_points ''Just plain text'')"
    by (simp add: is_synced_str_code_points)
  show "is_synced_str [0x5B, 0x0660, 0x0661, 0x3A, 0x0660, 0x0662, 0x2E, 0x0660, 0x0660, 0x5D, 0x41]"
    by (simp add: decimal_digit_def decimal_ranges_def)
  show "is_synced s = is_synced_str (code_points s)"
    by (simp add: is_synced_str_code_points)
  show "is_synced s \<longleftrightarrow>
      (\<exists>pre d1 d2 d3 d4 post. s = pre @ [CHR ''['', d1, d2, CHR '':'', d3, d4] @ post
         \<and> isdigit d1 \<and> isdigit d2 \<and> isdigit d3 \<and> isdigit d4)"
    unfolding is_synced_iff_suffix synced_here_iff by blast
qed

subsection \<open>The LRC parser\<close>

lemma match_fraction_groups:
  "match_fraction r = Some (ms0, t) \<Longrightarrow>
     (length ms0 = 2 \<or> length ms0 = 3) \<and> list_all isdigit ms0"
  by (auto simp: match_fraction_def split: if_splits)

lemma re_match_groups:
  assumes "re_match line = Some (mins, secs, ms0, txt)"
  shows "length mins = 2 \<and> list_all isdigit mins \<and> length secs = 2 \<and> list_all isdigit secs
         \<and> (length ms0 = 2 \<or> length ms0 = 3) \<and> list_all isdigit ms0"
proof -
  from assms have len: "6 \<le> length line"
    and m: "mins = take 2 (drop 1 line)" "list_all isdigit (take 2 (drop 1 line))"
    and s: "secs = take 2 (drop 4 line)" "list_all isdigit (take 2 (drop 4 line))"
    and f: "\<exists>t. match_fraction (dropWhile is_sep (drop 6 line)) = Some (ms0, t)"
    by (auto simp: re_match_def Let_def split: if_splits option.splits)
  from f obtain t where "match_fraction (dropWhile is_sep (drop 6 line)) = Some (ms0, t)" ..
  from match_fraction_groups [OF this] len m s show ?thesis by simp
qed

lemma py_int_digits: "s \<noteq> [] \<Longrightarrow> list_all isdigit s \<Longrightarrow> py_int s = Inr (dec_value s)"
  by (simp add: py_int_def)

lemma normalised_fraction:
  assumes "length ms0 = 2 \<or> length ms0 = 3" "list_all isdigit ms0"
  shows "take 3 (ljust ms0 3 (CHR ''0'')) \<noteq> [] \<and> list_all isdigit (take 3 (ljust ms0 3 (CHR ''0'')))"
  using assms by (auto simp: ljust_def isdigit_def list_all_iff dest: in_set_takeD)

lemma parse_lrc_loop_step:
  "parse_lrc_loop (raw # rest) acc = parse_lrc_loop rest (acc @ line_entries raw)
   \<and> length (line_entries raw) \<le> 1"
proof (cases "strip raw = []")
  case True
  then show ?thesis by (simp add: line_entries_def)
next
  case False
  show ?thesis
  proof (cases "re_match (strip raw)")
    case None
    with False show ?thesis by (simp add: line_entries_def)
  next
    case (Some g)
    obtain mins secs ms0 rest_text where g: "g = (mins, secs, ms0, rest_text)" by (cases g) auto
    from re_match_groups [OF Some [unfolded g]]
    have grp: "length mins = 2" "list_all isdigit mins" "length secs = 2" "list_all isdigit secs"
      "length ms0 = 2 \<or> length ms0 = 3" "list_all isdigit ms0" by simp_all
    have im: "py_int mins = Inr (dec_value mins)" using grp by (intro py_int_digits) auto
    have isec: "py_int secs = Inr (dec_value secs)" using grp by (intro py_int_digits) auto
    have "py_int (take 3 (ljust ms0 3 (CHR ''0''))) = Inr (dec_value (take 3 (ljust ms0 3 (CHR ''0''))))"
      using normalised_fraction [OF grp(5,6)] by (intro py_int_digits) auto
    with False Some g im isec show ?thesis by (simp add: line_entries_def)
  qed
qed

lemma parse_lrc_loop_eq:
  "parse_lrc_loop ls acc = Inr (acc @ concat (map line_entries ls))"
proof (induction ls arbitrary: acc)
  case Nil
  then show ?case by simp
next
  case (Cons raw rest)
  show ?case unfolding conjunct1 [OF parse_lrc_loop_step] Cons.IH by simp
qed

lemma parse_lrc_eq:
  "parse_lrc s = Inr (sort_key milliseconds (concat (map line_entries (split_lines s))))"
  by (simp add: parse_lrc_def parse_lrc_loop_eq)

lemma digit_not_sep: "isdigit c \<Longrightarrow> \<not> is_sep c"
  by (auto simp: isdigit_def is_sep_def)

lemma bracket_not_digit: "\<not> isdigit (CHR '']'')"
  by (simp add: isdigit_def)

lemma strip_tagged:
  "strip (CHR ''['' # xs @ CHR '']'' # r) = CHR ''['' # xs @ CHR '']'' # rev (dropWhile isspace (rev r))"
proof -
  have a: "\<not> isspace (CHR ''['')" "\<not> isspace (CHR '']'')" by (simp_all add: isspace_def)
  show ?thesis
    by (simp add: strip_def a dropWhile_append)
qed

lemma strip_append_spaces:
  assumes "\<forall>x \<in> set ws. isspace x"
  shows "strip (xs @ ws) = strip xs"
proof -
  obtain ws' where w: "dropWhile isspace (xs @ ws) = dropWhile isspace xs @ ws'"
    "\<forall>x \<in> set ws'. isspace x"
  proof (cases "\<forall>x \<in> set xs. isspace x")
    case True
    then have "dropWhile isspace (xs @ ws) = dropWhile isspace xs @ dropWhile isspace ws"
      by (simp add: dropWhile_append)
    moreover have "\<forall>x \<in> set (dropWhile isspace ws). isspace x"
      using assms by (meson set_dropWhileD)
    ultimately show ?thesis using that by blast
  next
    case False
    then have "dropWhile isspace (xs @ ws) = dropWhile isspace xs @ ws"
      by (auto simp: dropWhile_append)
    with assms show ?thesis using that by blast
  qed
  have "dropWhile isspace (rev ws' @ rev (dropWhile isspace xs))
          = dropWhile isspace (rev (dropWhile isspace xs))"
    using w(2) by (simp add: dropWhile_append)
  then show ?thesis by (simp add: strip_def w(1))
qed

lemma strip_rstrip: "strip (rev (dropWhile isspace (rev r))) = strip r"
proof -
  have "r = rev (dropWhile isspace (rev r)) @ rev (takeWhile isspace (rev r))"
    by (metis rev_append rev_rev_ident takeWhile_dropWhile_id)
  moreover have "\<forall>x \<in> set (rev (takeWhile isspace (rev r))). isspace x"
    by (auto dest: set_takeWhileD)
  ultimately show ?thesis using strip_append_spaces by metis
qed

lemma match_fraction_two:
  "isdigit f1 \<Longrightarrow> isdigit f2 \<Longrightarrow>
     match_fraction (f1 # f2 # CHR '']'' # t) = Some ([f1, f2], t)"
  by (simp add: match_fraction_def bracket_not_digit)

lemma match_fraction_three:
  "isdigit f1 \<Longrightarrow> isdigit f2 \<Longrightarrow> isdigit f3 \<Longrightarrow>
     match_fraction (f1 # f2 # f3 # CHR '']'' # t) = Some ([f1, f2, f3], t)"
  by (simp add: match_fraction_def)

lemma match_fraction_digits:
  assumes "length fs = 2 \<or> length fs = 3" "list_all isdigit fs"
  shows "match_fraction (fs @ CHR '']'' # t) = Some (fs, t)"
proof -
  from assms(1) consider f1 f2 where "fs = [f1, f2]" | f1 f2 f3 where "fs = [f1, f2, f3]"
    by (auto simp: length_Suc_conv numeral_2_eq_2 numeral_3_eq_3)
  then show ?thesis
  proof cases
    case 1
    with assms(2) show ?thesis by (simp add: match_fraction_two)
  next
    case 2
    with assms(2) show ?thesis by (simp add: match_fraction_three)
  qed
qed

lemma re_match_tagged:
  assumes "isdigit m1" "isdigit m2" "isdigit s1" "isdigit s2" "is_sep sep"
    and "length fs = 2 \<or> length fs = 3" "list_all isdigit fs" "LF \<notin> set t"
  shows "re_match ([CHR ''['', m1, m2, CHR '':'', s1, s2, sep] @ fs @ CHR '']'' # t)
           = Some ([m1, m2], [s1, s2], fs, t)"
proof -
  from assms(6) obtain f fs' where fs: "fs = f # fs'" by (cases fs) auto
  with assms(7) have "\<not> is_sep f" by (simp add: digit_not_sep)
  then have dw: "dropWhile is_sep (fs @ CHR '']'' # t) = fs @ CHR '']'' # t"
    using fs by simp
  have tw: "takeWhile (\<lambda>c. c \<noteq> LF) t = t"
    using assms(8) by (simp add: takeWhile_eq_all_conv) blast
  show ?thesis
    using assms(1-5)
    by (simp add: re_match_def Let_def dw match_fraction_digits [OF assms(6,7)] tw)
qed

lemma line_entries_tagged:
  assumes "isdigit m1" "isdigit m2" "isdigit s1" "isdigit s2" "is_sep sep"
    and "length fs = 2 \<or> length fs = 3" "list_all isdigit fs" "LF \<notin> set r"
  shows "line_entries ([CHR ''['', m1, m2, CHR '':'', s1, s2, sep] @ fs @ CHR '']'' # r)
           = [\<lparr>timestamp = ''['' @ [m1, m2] @ '':'' @ [s1, s2] @ ''.'' @ take 2 fs @ '']'',
               line_text = strip r,
               milliseconds = dec_value [m1, m2] * 60000 + dec_value [s1, s2] * 1000
                 + dec_value (take 3 (fs @ replicate (3 - length fs) (CHR ''0'')))\<rparr>]"
proof -
  let ?t = "rev (dropWhile isspace (rev r))"
  have st: "strip ([CHR ''['', m1, m2, CHR '':'', s1, s2, sep] @ fs @ CHR '']'' # r)
              = [CHR ''['', m1, m2, CHR '':'', s1, s2, sep] @ fs @ CHR '']'' # ?t"
    using strip_tagged [of "[m1, m2, CHR '':'', s1, s2, sep] @ fs" r] by simp
  have "LF \<notin> set ?t" using assms(8) by (auto dest: set_dropWhileD)
  note rm = re_match_tagged [OF assms(1-7) this]
  have im: "py_int [m1, m2] = Inr (dec_value [m1, m2])" using assms by (simp add: py_int_def)
  have isec: "py_int [s1, s2] = Inr (dec_value [s1, s2])" using assms by (simp add: py_int_def)
  have ifr: "py_int (take 3 (ljust fs 3 (CHR ''0''))) = Inr (dec_value (take 3 (ljust fs 3 (CHR ''0''))))"
    using normalised_fraction [OF assms(6,7)] by (intro py_int_digits) auto
  have e2: "take 2 (ljust fs 3 (CHR ''0'')) = take 2 fs"
    using assms(6) by (auto simp: ljust_def)
  have e2': "take 2 (take 3 (ljust fs 3 (CHR ''0''))) = take 2 fs"
    using e2 by simp
  have ifr': "py_int (take 3 (ljust fs 3 (CHR ''0'')))
                = Inr (dec_value (take 3 (fs @ replicate (3 - length fs) (CHR ''0''))))"
    using ifr by (simp add: ljust_def)
  have "parse_lrc_loop [[CHR ''['', m1, m2, CHR '':'', s1, s2, sep] @ fs @ CHR '']'' # r] []
          = Inr [\<lparr>timestamp = ''['' @ [m1, m2] @ '':'' @ [s1, s2] @ ''.'' @ take 2 fs @ '']'',
               line_text = strip r,
               milliseconds = dec_value [m1, m2] * 60000 + dec_value [s1, s2] * 1000
                 + dec_value (take 3 (fs @ replicate (3 - length fs) (CHR ''0'')))\<rparr>]"
    unfolding parse_lrc_loop.simps st Let_def rm
    by (simp add: im isec ifr' e2 e2' strip_rstrip)
  then show ?thesis by (simp add: line_entries_def)
qed

lemma split_acc_no_LF: "LF \<notin> set l \<Longrightarrow> split_acc cur l = [cur @ l]"
  by (induction l arbitrary: cur) auto

lemma split_acc_line: "LF \<notin> set l \<Longrightarrow> split_acc cur (l @ LF # s) = (cur @ l) # split_acc [] s"
  by (induction l arbitrary: cur) auto

lemma split_join_lines:
  "ls \<noteq> [] \<Longrightarrow> \<forall>l \<in> set ls. LF \<notin> set l \<Longrightarrow> split_lines (join_lines ls) = ls"
proof (induction ls rule: join_lines.induct)
  case 1
  then show ?case by simp
next
  case (2 l)
  then show ?case by (simp add: split_lines_def split_acc_no_LF)
next
  case (3 l m ls)
  then show ?case by (simp add: split_lines_def split_acc_line)
qed

lemma entries_join_lines:
  assumes "\<forall>l \<in> set ls. LF \<notin> set l"
  shows "concat (map line_entries (split_lines (join_lines ls))) = concat (map line_entries ls)"
proof (cases "ls = []")
  case True
  have "line_entries [] = []" by (simp add: line_entries_def strip_def)
  with True show ?thesis by (simp add: split_lines_def)
next
  case False
  with assms show ?thesis by (simp add: split_join_lines)
qed

lemma parse_lrc_join_lines:
  "\<forall>l \<in> set ls. LF \<notin> set l \<Longrightarrow>
     parse_lrc (join_lines ls) = Inr (sort_key milliseconds (concat (map line_entries ls)))"
  by (simp add: parse_lrc_eq entries_join_lines)








text \<open>
  Claim C5. A line that starts with a tag \<^verbatim>\<open>[MM:SS<sep>F]\<close>, two digits each for minutes
  and seconds, a separator \<^verbatim>\<open>.\<close> or \<^verbatim>\<open>:\<close> and a fraction \<open>fs\<close> of two or three
  digits, parses to one entry: its \<open>milliseconds\<close> are minutes times 60000 plus seconds
  times 1000 plus the value of the fraction padded with zeros to three digits and cut to
  three digits, and its \<open>timestamp\<close> shows the first two digits of the fraction. The same
  entry is in the result when the line stands among other lines of a text.
\<close>

theorem parse_lrc_tagged_line:
  assumes "isdigit m1" "isdigit m2" "isdigit s1" "isdigit s2"
    and "sep = CHR ''.'' \<or> sep = CHR '':''"
    and "length fs = 2 \<or> length fs = 3" "list_all isdigit fs"
    and "LF \<notin> set r" "\<forall>l \<in> set (pre @ post). LF \<notin> set l"
  shows "parse_lrc ([CHR ''['', m1, m2, CHR '':'', s1, s2, sep] @ fs @ CHR '']'' # r)
           = Inr [\<lparr>timestamp = ''['' @ [m1, m2] @ '':'' @ [s1, s2] @ ''.'' @ take 2 fs @ '']'',
                   line_text = strip r,
                   milliseconds = dec_value [m1, m2] * 60000 + dec_value [s1, s2] * 1000
                     + dec_value (take 3 (fs @ replicate (3 - length fs) (CHR ''0'')))\<rparr>]
       \<and> (\<exists>out. parse_lrc (join_lines
                    (pre @ ([CHR ''['', m1, m2, CHR '':'', s1, s2, sep] @ fs @ CHR '']'' # r) # post))
                  = Inr out
              \<and> \<lparr>timestamp = ''['' @ [m1, m2] @ '':'' @ [s1, s2] @ ''.'' @ take 2 fs @ '']'',
                   line_text = strip r,
                   milliseconds = dec_value [m1, m2] * 60000 + dec_value [s1, s2] * 1000
                     + dec_value (take 3 (fs @ replicate (3 - length fs) (CHR ''0'')))\<rparr>
                  \<in> set out)"
proof -
  let ?line = "[CHR ''['', m1, m2, CHR '':'', s1, s2, sep] @ fs @ CHR '']'' # r"
  let ?entry = "\<lparr>timestamp = ''['' @ [m1, m2] @ '':'' @ [s1, s2] @ ''.'' @ take 2 fs @ '']'',
                   line_text = strip r,
                   milliseconds = dec_value [m1, m2] * 60000 + dec_value [s1, s2] * 1000
                     + dec_value (take 3 (fs @ replicate (3 - length fs) (CHR ''0'')))\<rparr>"
  have sp: "is_sep sep" using assms(5) by (simp add: is_sep_def)
  have le: "line_entries ?line = [?entry]"
    by (rule line_entries_tagged [OF assms(1-4) sp assms(6-8)])
  have nl: "LF \<notin> set ?line"
    using assms by (auto simp: isdigit_def list_all_iff)
  have one: "parse_lrc ?line = Inr [?entry]"
    using parse_lrc_join_lines [of "[?line]"] nl le by simp
  have "\<forall>l \<in> set (pre @ ?line # post). LF \<notin> set l"
    using assms(9) nl by auto
  from parse_lrc_join_lines [OF this] le
  have "\<exists>out. parse_lrc (join_lines (pre @ ?line # post)) = Inr out \<and> ?entry \<in> set out"
    by simp
  with one show ?thesis by blast
qed

theorem parse_lrc_tagged_line_witness:
  "isdigit (CHR ''0'') \<and> isdigit (CHR ''1'') \<and> isdigit (CHR ''2'') \<and> isdigit (CHR ''3'')
   \<and> list_all isdigit ''456'' \<and> LF \<notin> set '' Hello world ''
   \<and> LF \<notin> set ''junk'' \<and> LF \<notin> set ''[00:02.50]x''
   \<and> parse_lrc ''[01:23:456] Hello world ''
       = Inr [\<lparr>timestamp = ''[01:23.45]'', line_text = ''Hello world'', milliseconds = 83456\<rparr>]
   \<and> (\<exists>out. parse_lrc (join_lines [''junk'', ''[01:23:456] Hello world '', ''[00:02.50]x''])
               = Inr out
          \<and> \<lparr>timestamp = ''[01:23.45]'', line_text = ''Hello world'', milliseconds = 83456\<rparr>
               \<in> set out)"
proof -
  have d: "isdigit (CHR ''0'')" "isdigit (CHR ''1'')" "isdigit (CHR ''2'')" "isdigit (CHR ''3'')"
    by (simp_all add: isdigit_def)
  have f: "length ''456'' = 2 \<or> length ''456'' = 3" "list_all isdigit ''456''"
    by (simp_all add: isdigit_def)
  have r: "LF \<notin> set '' Hello world ''" by simp
  have c: "\<forall>l \<in> set ([''junk''] @ [''[00:02.50]x'']). LF \<notin> set l" by simp
  have st: "strip '' Hello world '' = ''Hello world''" by (simp add: strip_def isspace_def)
  from parse_lrc_tagged_line [where ?m1.0 = "CHR ''0''" and ?m2.0 = "CHR ''1''"
      and ?s1.0 = "CHR ''2''" and ?s2.0 = "CHR ''3''" and sep = "CHR '':''" and fs = "''456''"
      and r = "'' Hello world ''" and pre = "[''junk'']" and post = "[''[00:02.50]x'']"]
    d f r c st
  show ?thesis by (simp add: dec_value_def digit_val_def)
qed

subsection \<open>The aggregating searcher\<close>

lemma parsed_lines_total:
  "\<exists>ls. parsed_lines b s = Inr ls \<and> (if b then parse_lrc s = Inr ls else ls = [])"
  by (simp add: parsed_lines_def parse_lrc_eq)

lemma search_loop_skip:
  "\<not> acceptable g p tr ar so \<Longrightarrow>
     search_loop g ((n, p) # rest) tr ar so = search_loop g rest tr ar so"
  by (auto simp: acceptable_def raw_text_def Let_def split: outcome.splits option.splits)

lemma search_loop_accept:
  assumes "acceptable g p tr ar so"
  shows "\<exists>ls. (if is_synced (raw_text g p tr ar) then parse_lrc (raw_text g p tr ar) = Inr ls else ls = [])
           \<and> search_loop g ((n, p) # rest) tr ar so
               = Some \<lparr>track = tr, artist = ar, lrc = raw_text g p tr ar, lines = ls, source = n\<rparr>"
proof -
  let ?s = "raw_text g p tr ar"
  from assms have g: "g p tr ar = Returns (Some ?s)" and ne: "?s \<noteq> []"
    and sy: "so \<longrightarrow> is_synced ?s"
    by (auto simp: acceptable_def raw_text_def split: outcome.splits option.splits)
  from parsed_lines_total [of "is_synced ?s" ?s] obtain ls
    where ls: "parsed_lines (is_synced ?s) ?s = Inr ls"
      "if is_synced ?s then parse_lrc ?s = Inr ls else ls = []" by blast
  have "search_loop g ((n, p) # rest) tr ar so
          = Some \<lparr>track = tr, artist = ar, lrc = ?s, lines = ls, source = n\<rparr>"
    using g ne sy ls(1) by (auto simp: Let_def)
  with ls(2) show ?thesis by blast
qed

lemma search_loop_drop:
  "\<not> acceptable g p tr ar so \<Longrightarrow>
     search_loop g (ps @ (n, p) # qs) tr ar so = search_loop g (ps @ qs) tr ar so"
proof (induction ps)
  case Nil
  then show ?case by (simp add: search_loop_skip del: search_loop.simps)
next
  case (Cons a ps)
  obtain n' p' where a: "a = (n', p')" by (cases a)
  show ?case
  proof (cases "acceptable g p' tr ar so")
    case True
    from search_loop_accept [OF True, of n' "ps @ (n, p) # qs"]
         search_loop_accept [OF True, of n' "ps @ qs"]
    show ?thesis unfolding a by (auto split: if_splits)
  next
    case False
    with Cons show ?thesis by (simp add: a search_loop_skip del: search_loop.simps)
  qed
qed

lemma search_loop_prefix:
  "\<forall>(n, p) \<in> set ps. \<not> acceptable g p tr ar so \<Longrightarrow>
     search_loop g (ps @ qs) tr ar so = search_loop g qs tr ar so"
  by (induction ps) (auto simp: search_loop_skip simp del: search_loop.simps)

lemma search_loop_Some:
  "search_loop g ps tr ar so = Some d \<Longrightarrow>
     \<exists>n p. (n, p) \<in> set ps \<and> acceptable g p tr ar so \<and> lrc d = raw_text g p tr ar
            \<and> source d = n \<and> track d = tr \<and> artist d = ar"
proof (induction ps)
  case Nil
  then show ?case by simp
next
  case (Cons a ps)
  obtain n' p' where a: "a = (n', p')" by (cases a)
  show ?case
  proof (cases "acceptable g p' tr ar so")
    case True
    from search_loop_accept [OF True, of n' ps] Cons.prems
    have "lrc d = raw_text g p' tr ar \<and> source d = n' \<and> track d = tr \<and> artist d = ar"
      unfolding a by auto
    with True show ?thesis unfolding a by auto
  next
    case False
    with Cons show ?thesis unfolding a by (auto simp: search_loop_skip simp del: search_loop.simps)
  qed
qed

text \<open>
  Claim C1. When no provider before \<open>(n, p)\<close> in the configured list gives an acceptable
  result and \<open>p\<close> does, \<open>search\<close> returns the document built from the text of \<open>p\<close>:
  \<open>source\<close> is the name \<open>n\<close>, \<open>track\<close> and \<open>artist\<close> are the query strings, \<open>lines\<close> are
  the parsed lines of a synced text and empty for a plain one. The providers \<open>qs\<close> after
  \<open>p\<close> are arbitrary, acceptable or not: they have no part in the result.
\<close>

theorem search_first_acceptable:
  assumes "\<forall>(n', p') \<in> set ps. \<not> acceptable g p' tr ar so"
    and "acceptable g p tr ar so"
  shows "\<exists>s ls. g p tr ar = Returns (Some s)
           \<and> (if is_synced s then parse_lrc s = Inr ls else ls = [])
           \<and> search g \<lparr>providers = ps @ (n, p) # qs\<rparr> tr ar so
               = Some \<lparr>track = tr, artist = ar, lrc = s, lines = ls, source = n\<rparr>"
proof -
  from assms(2) have g: "g p tr ar = Returns (Some (raw_text g p tr ar))"
    by (auto simp: acceptable_def raw_text_def split: outcome.splits option.splits)
  from search_loop_accept [OF assms(2), of n qs] obtain ls where
    "if is_synced (raw_text g p tr ar) then parse_lrc (raw_text g p tr ar) = Inr ls else ls = []"
    "search_loop g ((n, p) # qs) tr ar so
       = Some \<lparr>track = tr, artist = ar, lrc = raw_text g p tr ar, lines = ls, source = n\<rparr>"
    by blast
  with g search_loop_prefix [OF assms(1), of "(n, p) # qs"] show ?thesis
    by (auto simp: search_def)
qed

text \<open>
  Claim C2. In synced-only mode a provider that returns a non-empty text classified as
  not synced is passed over: the search goes on as if the provider were not in the list.
  A document returned in synced-only mode always has a raw text classified as synced.
\<close>

theorem search_synced_only_discards_plain:
  "(g p tr ar = Returns (Some s) \<and> s \<noteq> [] \<and> \<not> is_synced s \<longrightarrow>
      search g \<lparr>providers = ps @ (n, p) # qs\<rparr> tr ar True
        = search g \<lparr>providers = ps @ qs\<rparr> tr ar True)
   \<and> (search g self tr ar True = Some d \<longrightarrow> is_synced (lrc d) \<and> lrc d \<noteq> [])"
proof
  show "g p tr ar = Returns (Some s) \<and> s \<noteq> [] \<and> \<not> is_synced s \<longrightarrow>
      search g \<lparr>providers = ps @ (n, p) # qs\<rparr> tr ar True
        = search g \<lparr>providers = ps @ qs\<rparr> tr ar True"
  proof
    assume "g p tr ar = Returns (Some s) \<and> s \<noteq> [] \<and> \<not> is_synced s"
    then have "\<not> acceptable g p tr ar True" by (simp add: acceptable_def raw_text_def)
    then show "search g \<lparr>providers = ps @ (n, p) # qs\<rparr> tr ar True
        = search g \<lparr>providers = ps @ qs\<rparr> tr ar True"
      by (simp add: search_def search_loop_drop)
  qed
next
  show "search g self tr ar True = Some d \<longrightarrow> is_synced (lrc d) \<and> lrc d \<noteq> []"
    using search_loop_Some [of g "providers self" tr ar True d]
    by (auto simp: search_def acceptable_def)
qed

text \<open>
  Claim C7. A provider that reports absence or raises is passed over: the search gives
  what it gives without that provider, and after any run of such providers it returns
  the document of the next provider when that one is acceptable. When no configured
  provider gives an acceptable result, \<open>search\<close> returns \<open>None\<close>. The result type of
  \<open>search\<close> has no error: every exception of the loop body is caught there.
\<close>

theorem search_skips_failures:
  "(g p tr ar = Returns None \<or> g p tr ar = Raises e \<longrightarrow>
      search g \<lparr>providers = ps @ (n, p) # qs\<rparr> tr ar so
        = search g \<lparr>providers = ps @ qs\<rparr> tr ar so)
   \<and> ((\<forall>(n', p') \<in> set (providers self). \<not> acceptable g p' tr ar so) \<longrightarrow>
        search g self tr ar so = None)
   \<and> ((\<forall>(n', p') \<in> set fs. g p' tr ar = Returns None \<or> (\<exists>e'. g p' tr ar = Raises e'))
        \<and> acceptable g q tr ar so \<longrightarrow>
        (\<exists>s ls. g q tr ar = Returns (Some s)
           \<and> (if is_synced s then parse_lrc s = Inr ls else ls = [])
           \<and> search g \<lparr>providers = fs @ (m, q) # rest\<rparr> tr ar so
               = Some \<lparr>track = tr, artist = ar, lrc = s, lines = ls, source = m\<rparr>))"
proof (intro conjI)
  show "g p tr ar = Returns None \<or> g p tr ar = Raises e \<longrightarrow>
      search g \<lparr>providers = ps @ (n, p) # qs\<rparr> tr ar so
        = search g \<lparr>providers = ps @ qs\<rparr> tr ar so"
  proof
    assume "g p tr ar = Returns None \<or> g p tr ar = Raises e"
    then have "\<not> acceptable g p tr ar so" by (auto simp: acceptable_def raw_text_def)
    then show "search g \<lparr>providers = ps @ (n, p) # qs\<rparr> tr ar so
        = search g \<lparr>providers = ps @ qs\<rparr> tr ar so"
      by (simp add: search_def search_loop_drop)
  qed
next
  show "(\<forall>(n', p') \<in> set (providers self). \<not> acceptable g p' tr ar so) \<longrightarrow>
        search g self tr ar so = None"
    using search_loop_prefix [of "providers self" g tr ar so "[]"] by (simp add: search_def)
next
  show "(\<forall>(n', p') \<in> set fs. g p' tr ar = Returns None \<or> (\<exists>e'. g p' tr ar = Raises e'))
        \<and> acceptable g q tr ar so \<longrightarrow>
        (\<exists>s ls. g q tr ar = Returns (Some s)
           \<and> (if is_synced s then parse_lrc s = Inr ls else ls = [])
           \<and> search g \<lparr>providers = fs @ (m, q) # rest\<rparr> tr ar so
               = Some \<lparr>track = tr, artist = ar, lrc = s, lines = ls, source = m\<rparr>)"
  proof
    assume a: "(\<forall>(n', p') \<in> set fs. g p' tr ar = Returns None \<or> (\<exists>e'. g p' tr ar = Raises e'))
        \<and> acceptable g q tr ar so"
    then have f: "\<forall>(n', p') \<in> set fs. \<not> acceptable g p' tr ar so"
      by (auto simp: acceptable_def raw_text_def)
    from a have acc: "acceptable g q tr ar so" by simp
    then have g: "g q tr ar = Returns (Some (raw_text g q tr ar))"
      by (auto simp: acceptable_def raw_text_def split: outcome.splits option.splits)
    from search_loop_accept [OF acc, of m rest] obtain ls where
      "if is_synced (raw_text g q tr ar) then parse_lrc (raw_text g q tr ar) = Inr ls else ls = []"
      "search_loop g ((m, q) # rest) tr ar so
         = Some \<lparr>track = tr, artist = ar, lrc = raw_text g q tr ar, lines = ls, source = m\<rparr>"
      by blast
    with g search_loop_prefix [OF f, of "(m, q) # rest"]
    show "\<exists>s ls. g q tr ar = Returns (Some s)
           \<and> (if is_synced s then parse_lrc s = Inr ls else ls = [])
           \<and> search g \<lparr>providers = fs @ (m, q) # rest\<rparr> tr ar so
               = Some \<lparr>track = tr, artist = ar, lrc = s, lines = ls, source = m\<rparr>"
      by (auto simp: search_def)
  qed
qed

lemma search_all_loop_skip:
  "raw_text g p tr ar = [] \<Longrightarrow>
     search_all_loop g ((n, p) # rest) tr ar results = search_all_loop g rest tr ar results"
  by (auto simp: raw_text_def split: outcome.splits option.splits)

lemma search_all_loop_accept:
  assumes "raw_text g p tr ar \<noteq> []"
  shows "\<exists>ls. (if is_synced (raw_text g p tr ar) then parse_lrc (raw_text g p tr ar) = Inr ls else ls = [])
           \<and> search_all_loop g ((n, p) # rest) tr ar results
               = search_all_loop g rest tr ar
                   (results @ [\<lparr>track = tr, artist = ar, lrc = raw_text g p tr ar, lines = ls,
                                 source = n\<rparr>])"
proof -
  let ?s = "raw_text g p tr ar"
  from assms have g: "g p tr ar = Returns (Some ?s)"
    by (auto simp: raw_text_def split: outcome.splits option.splits)
  from parsed_lines_total [of "is_synced ?s" ?s] obtain ls
    where ls: "parsed_lines (is_synced ?s) ?s = Inr ls"
      "if is_synced ?s then parse_lrc ?s = Inr ls else ls = []" by blast
  have "search_all_loop g ((n, p) # rest) tr ar results
          = search_all_loop g rest tr ar
              (results @ [\<lparr>track = tr, artist = ar, lrc = ?s, lines = ls, source = n\<rparr>])"
    using g assms ls(1) by simp
  with ls(2) show ?thesis by blast
qed

lemma search_all_loop_docs:
  "\<exists>docs. search_all_loop g ps tr ar results = results @ docs
      \<and> map (\<lambda>d. (source d, lrc d)) docs
          = map (\<lambda>(n, p). (n, raw_text g p tr ar))
              (filter (\<lambda>(n, p). raw_text g p tr ar \<noteq> []) ps)
      \<and> (\<forall>d \<in> set docs. track d = tr \<and> artist d = ar
            \<and> (if is_synced (lrc d) then parse_lrc (lrc d) = Inr (lines d) else lines d = []))"
proof (induction ps arbitrary: results)
  case Nil
  then show ?case by simp
next
  case (Cons a ps)
  obtain n p where a: "a = (n, p)" by (cases a)
  show ?case
  proof (cases "raw_text g p tr ar = []")
    case True
    with Cons [of results] show ?thesis
      unfolding a by (simp add: search_all_loop_skip del: search_all_loop.simps)
  next
    case False
    from search_all_loop_accept [OF False, of n ps results] obtain ls where
      ls: "if is_synced (raw_text g p tr ar) then parse_lrc (raw_text g p tr ar) = Inr ls else ls = []"
      and st: "search_all_loop g ((n, p) # ps) tr ar results
             = search_all_loop g ps tr ar
                 (results @ [\<lparr>track = tr, artist = ar, lrc = raw_text g p tr ar, lines = ls,
                               source = n\<rparr>])"
      by blast
    let ?d = "\<lparr>track = tr, artist = ar, lrc = raw_text g p tr ar, lines = ls, source = n\<rparr>"
    from Cons [of "results @ [?d]"] obtain docs where
      docs: "search_all_loop g ps tr ar (results @ [?d]) = (results @ [?d]) @ docs"
        "map (\<lambda>d. (source d, lrc d)) docs
          = map (\<lambda>(n, p). (n, raw_text g p tr ar))
              (filter (\<lambda>(n, p). raw_text g p tr ar \<noteq> []) ps)"
        "\<forall>d \<in> set docs. track d = tr \<and> artist d = ar
            \<and> (if is_synced (lrc d) then parse_lrc (lrc d) = Inr (lines d) else lines d = [])"
      by blast
    show ?thesis
    proof (intro exI [of _ "?d # docs"] conjI)
      show "search_all_loop g (a # ps) tr ar results = results @ ?d # docs"
        unfolding a st docs(1) by simp
      show "map (\<lambda>d. (source d, lrc d)) (?d # docs)
          = map (\<lambda>(n, p). (n, raw_text g p tr ar))
              (filter (\<lambda>(n, p). raw_text g p tr ar \<noteq> []) (a # ps))"
        using False docs(2) unfolding a by simp
      show "\<forall>d \<in> set (?d # docs). track d = tr \<and> artist d = ar
            \<and> (if is_synced (lrc d) then parse_lrc (lrc d) = Inr (lines d) else lines d = [])"
        using ls docs(3) by (auto split: if_splits)
    qed
  qed
qed

text \<open>
  Claim C8. \<open>search_all\<close> returns one document for each configured provider that produced
  a non-empty raw text, in the configured order, whatever the classification of the
  text; the lines of a document are the parsed lines when its text is synced and empty
  when it is not.
\<close>

theorem search_all_one_per_producing_provider:
  "map (\<lambda>d. (source d, lrc d)) (search_all g self tr ar)
     = map (\<lambda>(n, p). (n, raw_text g p tr ar))
         (filter (\<lambda>(n, p). raw_text g p tr ar \<noteq> []) (providers self))
   \<and> (\<forall>d \<in> set (search_all g self tr ar). track d = tr \<and> artist d = ar
         \<and> (if is_synced (lrc d) then parse_lrc (lrc d) = Inr (lines d) else lines d = []))"
  using search_all_loop_docs [of g "providers self" tr ar "[]"]
  by (auto simp: search_all_def)

lemma search_all_loop_drop:
  "raw_text g p tr ar = [] \<Longrightarrow>
     search_all_loop g (ps @ (n, p) # qs) tr ar results
       = search_all_loop g (ps @ qs) tr ar results"
proof (induction ps arbitrary: results)
  case Nil
  then show ?case by (simp add: search_all_loop_skip del: search_all_loop.simps)
next
  case (Cons a ps)
  obtain n' p' where a: "a = (n', p')" by (cases a)
  show ?case
  proof (cases "raw_text g p' tr ar = []")
    case True
    with Cons show ?thesis
      unfolding a by (simp add: search_all_loop_skip del: search_all_loop.simps)
  next
    case False
    from search_all_loop_accept [OF False, of n' "ps @ (n, p) # qs" results]
         search_all_loop_accept [OF False, of n' "ps @ qs" results] Cons
    show ?thesis unfolding a by (auto split: if_splits simp del: search_all_loop.simps)
  qed
qed

lemma absent_for_empty_apply:
  "absent_for_empty g p tr ar = (if g p tr ar = Returns (Some []) then Returns None else g p tr ar)"
  by (simp add: absent_for_empty_def)

lemma raw_text_absent_for_empty:
  "raw_text (absent_for_empty g) p tr ar = raw_text g p tr ar"
  by (auto simp: raw_text_def absent_for_empty_def split: outcome.splits option.splits)

lemma search_loop_absent_for_empty:
  "search_loop (absent_for_empty g) ps tr ar so = search_loop g ps tr ar so"
proof (induction ps)
  case Nil
  then show ?case by simp
next
  case (Cons a ps)
  obtain n p where a: "a = (n, p)" by (cases a)
  show ?case
    unfolding a using Cons
    by (cases "g p tr ar") (auto simp: absent_for_empty_apply Let_def split: option.splits sum.splits)
qed

lemma search_all_loop_absent_for_empty:
  "search_all_loop (absent_for_empty g) ps tr ar results = search_all_loop g ps tr ar results"
proof (induction ps arbitrary: results)
  case Nil
  then show ?case by simp
next
  case (Cons a ps)
  obtain n p where a: "a = (n, p)" by (cases a)
  show ?case
    unfolding a using Cons
    by (cases "g p tr ar") (auto simp: absent_for_empty_apply Let_def split: option.splits sum.splits)
qed

text \<open>
  Claim C10. Replacing every empty string a provider returns by absence changes neither
  \<open>search\<close> nor \<open>search_all\<close>; a provider that returns the empty string is passed over
  by both; and every document either of them returns has a non-empty \<open>lrc\<close>.
\<close>

theorem empty_text_is_absence:
  "search (absent_for_empty g) self tr ar so = search g self tr ar so
   \<and> search_all (absent_for_empty g) self tr ar = search_all g self tr ar
   \<and> (g p tr ar = Returns (Some []) \<longrightarrow>
        search g \<lparr>providers = ps @ (n, p) # qs\<rparr> tr ar so
          = search g \<lparr>providers = ps @ qs\<rparr> tr ar so
        \<and> search_all g \<lparr>providers = ps @ (n, p) # qs\<rparr> tr ar
          = search_all g \<lparr>providers = ps @ qs\<rparr> tr ar)
   \<and> (search g self tr ar so = Some d \<longrightarrow> lrc d \<noteq> [])
   \<and> (\<forall>d' \<in> set (search_all g self tr ar). lrc d' \<noteq> [])"
proof (intro conjI)
  show "search (absent_for_empty g) self tr ar so = search g self tr ar so"
    by (simp add: search_def search_loop_absent_for_empty)
  show "search_all (absent_for_empty g) self tr ar = search_all g self tr ar"
    by (simp add: search_all_def search_all_loop_absent_for_empty)
  show "g p tr ar = Returns (Some []) \<longrightarrow>
        search g \<lparr>providers = ps @ (n, p) # qs\<rparr> tr ar so
          = search g \<lparr>providers = ps @ qs\<rparr> tr ar so
        \<and> search_all g \<lparr>providers = ps @ (n, p) # qs\<rparr> tr ar
          = search_all g \<lparr>providers = ps @ qs\<rparr> tr ar"
  proof
    assume "g p tr ar = Returns (Some [])"
    then have r: "raw_text g p tr ar = []" by (simp add: raw_text_def)
    then have "\<not> acceptable g p tr ar so" by (simp add: acceptable_def)
    with r show "search g \<lparr>providers = ps @ (n, p) # qs\<rparr> tr ar so
          = search g \<lparr>providers = ps @ qs\<rparr> tr ar so
        \<and> search_all g \<lparr>providers = ps @ (n, p) # qs\<rparr> tr ar
          = search_all g \<lparr>providers = ps @ qs\<rparr> tr ar"
      by (simp add: search_def search_all_def search_loop_drop search_all_loop_drop)
  qed
  show "search g self tr ar so = Some d \<longrightarrow> lrc d \<noteq> []"
    using search_loop_Some [of g "providers self" tr ar so d]
    by (auto simp: search_def acceptable_def)
  show "\<forall>d' \<in> set (search_all g self tr ar). lrc d' \<noteq> []"
  proof
    fix d' assume "d' \<in> set (search_all g self tr ar)"
    then have "(source d', lrc d') \<in> set (map (\<lambda>d. (source d, lrc d)) (search_all g self tr ar))"
      by (simp add: rev_image_eqI)
    also have "map (\<lambda>d. (source d, lrc d)) (search_all g self tr ar)
                 = map (\<lambda>(n, p). (n, raw_text g p tr ar))
                     (filter (\<lambda>(n, p). raw_text g p tr ar \<noteq> []) (providers self))"
      using search_all_loop_docs [of g "providers self" tr ar "[]"] by (auto simp: search_all_def)
    finally show "lrc d' \<noteq> []" by auto
  qed
qed

subsection \<open>Construction\<close>

lemma recognized_iff:
  "map_of PROVIDERS name \<noteq> None \<longleftrightarrow> name \<in> {''lrclib'', ''netease'', ''megalobiz''}"
  by (simp add: PROVIDERS_def)

lemma init_loop_result:
  "\<exists>new. init_loop names acc = Inr (acc @ new)
     \<and> map fst new = filter (\<lambda>n. n \<in> {''lrclib'', ''netease'', ''megalobiz''}) names
     \<and> map (oid \<circ> snd) new = [length acc ..< length acc + length new]
     \<and> map (\<lambda>(n, p). Some (cls p)) new = map (\<lambda>(n, p). map_of PROVIDERS n) new"
proof (induction names arbitrary: acc)
  case Nil
  then show ?case by simp
next
  case (Cons name rest)
  show ?case
  proof (cases "map_of PROVIDERS name")
    case None
    then have "name \<notin> {''lrclib'', ''netease'', ''megalobiz''}"
      using recognized_iff [of name] by simp
    with None Cons [of acc] show ?thesis by simp
  next
    case (Some c)
    then have r: "name \<in> {''lrclib'', ''netease'', ''megalobiz''}"
      using recognized_iff [of name] by simp
    let ?e = "(name, \<lparr>cls = c, oid = length acc\<rparr>)"
    from Cons [of "acc @ [?e]"] obtain new where
      new: "init_loop rest (acc @ [?e]) = Inr ((acc @ [?e]) @ new)"
        "map fst new = filter (\<lambda>n. n \<in> {''lrclib'', ''netease'', ''megalobiz''}) rest"
        "map (oid \<circ> snd) new = [length (acc @ [?e]) ..< length (acc @ [?e]) + length new]"
        "map (\<lambda>(n, p). Some (cls p)) new = map (\<lambda>(n, p). map_of PROVIDERS n) new"
      by blast
    show ?thesis
    proof (intro exI [of _ "?e # new"] conjI)
      show "init_loop (name # rest) acc = Inr (acc @ ?e # new)"
        using Some new(1) by simp
      show "map fst (?e # new)
              = filter (\<lambda>n. n \<in> {''lrclib'', ''netease'', ''megalobiz''}) (name # rest)"
        using r new(2) by simp
      show "map (oid \<circ> snd) (?e # new) = [length acc ..< length acc + length (?e # new)]"
        using new(3) by (simp add: upt_conv_Cons del: upt_Suc)
      show "map (\<lambda>(n, p). Some (cls p)) (?e # new) = map (\<lambda>(n, p). map_of PROVIDERS n) (?e # new)"
        using Some new(4) by simp
    qed
  qed
qed

text \<open>
  Claim C9. Construction from a list of names never raises. The names of the active
  providers are the recognized names of the list, in their order and as often as they
  occur; every entry holds an object of the class registered under its name, and the
  objects are pairwise different (they are numbered in creation order). An unknown
  name is dropped, a name given twice gives two entries.
\<close>

theorem init_keeps_recognized_names:
  "(\<exists>self. init (Some names) = Inr self
      \<and> map fst (providers self)
          = filter (\<lambda>n. n \<in> {''lrclib'', ''netease'', ''megalobiz''}) names
      \<and> map (oid \<circ> snd) (providers self) = [0 ..< length (providers self)]
      \<and> map (\<lambda>(n, p). Some (cls p)) (providers self)
          = map (\<lambda>(n, p). map_of PROVIDERS n) (providers self))
   \<and> init (Some [''netease'', ''spotify'', ''lrclib''])
       = Inr \<lparr>providers = [(''netease'', \<lparr>cls = NetEaseProvider, oid = 0\<rparr>),
                            (''lrclib'', \<lparr>cls = LrcLibProvider, oid = 1\<rparr>)]\<rparr>
   \<and> init (Some [''lrclib'', ''lrclib''])
       = Inr \<lparr>providers = [(''lrclib'', \<lparr>cls = LrcLibProvider, oid = 0\<rparr>),
                            (''lrclib'', \<lparr>cls = LrcLibProvider, oid = 1\<rparr>)]\<rparr>"
proof (intro conjI)
  from init_loop_result [of names "[]"] obtain new where
    "init_loop names [] = Inr new"
    "map fst new = filter (\<lambda>n. n \<in> {''lrclib'', ''netease'', ''megalobiz''}) names"
    "map (oid \<circ> snd) new = [0 ..< length new]"
    "map (\<lambda>(n, p). Some (cls p)) new = map (\<lambda>(n, p). map_of PROVIDERS n) new"
    by auto
  then show "\<exists>self. init (Some names) = Inr self
      \<and> map fst (providers self)
          = filter (\<lambda>n. n \<in> {''lrclib'', ''netease'', ''megalobiz''}) names
      \<and> map (oid \<circ> snd) (providers self) = [0 ..< length (providers self)]
      \<and> map (\<lambda>(n, p). Some (cls p)) (providers self)
          = map (\<lambda>(n, p). map_of PROVIDERS n) (providers self)"
    by (intro exI [of _ "\<lparr>providers = new\<rparr>"]) (simp add: init_def)
  show "init (Some [''netease'', ''spotify'', ''lrclib''])
       = Inr \<lparr>providers = [(''netease'', \<lparr>cls = NetEaseProvider, oid = 0\<rparr>),
                            (''lrclib'', \<lparr>cls = LrcLibProvider, oid = 1\<rparr>)]\<rparr>"
    by (simp add: init_def PROVIDERS_def)
  show "init (Some [''lrclib'', ''lrclib''])
       = Inr \<lparr>providers = [(''lrclib'', \<lparr>cls = LrcLibProvider, oid = 0\<rparr>),
                            (''lrclib'', \<lparr>cls = LrcLibProvider, oid = 1\<rparr>)]\<rparr>"
    by (simp add: init_def PROVIDERS_def)
qed

subsection \<open>The searcher on the example data\<close>

lemma ex_hello: "parse_lrc ''[00:01.00]Hello''
  = Inr [\<lparr>timestamp = ''[00:01.00]'', line_text = ''Hello'', milliseconds = 1000\<rparr>]"
  by code_simp

lemma ex_later: "parse_lrc ''[00:02.00]Later''
  = Inr [\<lparr>timestamp = ''[00:02.00]'', line_text = ''Later'', milliseconds = 2000\<rparr>]"
  by code_simp

lemma ex_synced: "is_synced ''[00:01.00]Hello''" "is_synced ''[00:02.00]Later''"
  "\<not> is_synced ''Just plain text''"
  by (simp_all add: isdigit_def)

theorem search_first_acceptable_witness:
  "\<not> acceptable ex_plain_then_synced \<lparr>cls = LrcLibProvider, oid = 0\<rparr> ''Song'' ''Artist'' True
   \<and> acceptable ex_plain_then_synced \<lparr>cls = NetEaseProvider, oid = 1\<rparr> ''Song'' ''Artist'' True
   \<and> acceptable ex_plain_then_synced \<lparr>cls = MegalobizProvider, oid = 2\<rparr> ''Song'' ''Artist'' True
   \<and> search ex_plain_then_synced \<lparr>providers = ex_providers\<rparr> ''Song'' ''Artist'' True
       = Some \<lparr>track = ''Song'', artist = ''Artist'', lrc = ''[00:01.00]Hello'',
               lines = [\<lparr>timestamp = ''[00:01.00]'', line_text = ''Hello'', milliseconds = 1000\<rparr>],
               source = ''netease''\<rparr>"
proof -
  have h1: "\<forall>(n', p') \<in> set [(''lrclib'', \<lparr>cls = LrcLibProvider, oid = 0\<rparr>)].
              \<not> acceptable ex_plain_then_synced p' ''Song'' ''Artist'' True"
    by (simp add: acceptable_def raw_text_def ex_plain_then_synced_def isdigit_def)
  have h2: "acceptable ex_plain_then_synced \<lparr>cls = NetEaseProvider, oid = 1\<rparr> ''Song'' ''Artist'' True"
    by (simp add: acceptable_def raw_text_def ex_plain_then_synced_def isdigit_def)
  have h3: "acceptable ex_plain_then_synced \<lparr>cls = MegalobizProvider, oid = 2\<rparr> ''Song'' ''Artist'' True"
    by (simp add: acceptable_def raw_text_def ex_plain_then_synced_def isdigit_def)
  have g: "ex_plain_then_synced \<lparr>cls = NetEaseProvider, oid = 1\<rparr> ''Song'' ''Artist''
             = Returns (Some ''[00:01.00]Hello'')"
    by (simp add: ex_plain_then_synced_def)
  from search_first_acceptable [OF h1 h2, of "''netease''"
      "[(''megalobiz'', \<lparr>cls = MegalobizProvider, oid = 2\<rparr>)]"]
  have "search ex_plain_then_synced \<lparr>providers = ex_providers\<rparr> ''Song'' ''Artist'' True
       = Some \<lparr>track = ''Song'', artist = ''Artist'', lrc = ''[00:01.00]Hello'',
               lines = [\<lparr>timestamp = ''[00:01.00]'', line_text = ''Hello'', milliseconds = 1000\<rparr>],
               source = ''netease''\<rparr>"
    unfolding g by (auto simp: ex_providers_def isdigit_def ex_hello)
  with h1 h2 h3 show ?thesis by simp
qed

theorem search_synced_only_discards_plain_witness:
  "ex_plain_then_synced \<lparr>cls = LrcLibProvider, oid = 0\<rparr> ''Song'' ''Artist''
     = Returns (Some ''Just plain text'')
   \<and> ''Just plain text'' \<noteq> [] \<and> \<not> is_synced ''Just plain text''
   \<and> search ex_plain_then_synced \<lparr>providers = ex_providers\<rparr> ''Song'' ''Artist'' True
       = search ex_plain_then_synced \<lparr>providers = tl ex_providers\<rparr> ''Song'' ''Artist'' True
   \<and> search ex_plain_then_synced \<lparr>providers = ex_providers\<rparr> ''Song'' ''Artist'' True
       = Some \<lparr>track = ''Song'', artist = ''Artist'', lrc = ''[00:01.00]Hello'',
               lines = [\<lparr>timestamp = ''[00:01.00]'', line_text = ''Hello'', milliseconds = 1000\<rparr>],
               source = ''netease''\<rparr>
   \<and> is_synced ''[00:01.00]Hello''"
proof -
  have g: "ex_plain_then_synced \<lparr>cls = LrcLibProvider, oid = 0\<rparr> ''Song'' ''Artist''
     = Returns (Some ''Just plain text'')"
    by (simp add: ex_plain_then_synced_def)
  have p: "''Just plain text'' \<noteq> []" "\<not> is_synced ''Just plain text''" by simp_all
  have e: "search ex_plain_then_synced \<lparr>providers = ex_providers\<rparr> ''Song'' ''Artist'' True
       = Some \<lparr>track = ''Song'', artist = ''Artist'', lrc = ''[00:01.00]Hello'',
               lines = [\<lparr>timestamp = ''[00:01.00]'', line_text = ''Hello'', milliseconds = 1000\<rparr>],
               source = ''netease''\<rparr>"
    by (simp add: search_def ex_providers_def ex_plain_then_synced_def isdigit_def
        parsed_lines_def ex_hello)
  from search_synced_only_discards_plain [of ex_plain_then_synced
      "\<lparr>cls = LrcLibProvider, oid = 0\<rparr>" "''Song''" "''Artist''" "''Just plain text''" "[]"
      "''lrclib''" "tl ex_providers" "\<lparr>providers = ex_providers\<rparr>"
      "\<lparr>track = ''Song'', artist = ''Artist'', lrc = ''[00:01.00]Hello'',
               lines = [\<lparr>timestamp = ''[00:01.00]'', line_text = ''Hello'', milliseconds = 1000\<rparr>],
               source = ''netease''\<rparr>"] g p e
  show ?thesis by (simp add: ex_providers_def)
qed

theorem search_skips_failures_witness:
  "ex_failing_then_synced \<lparr>cls = LrcLibProvider, oid = 0\<rparr> ''Song'' ''Artist''
     = Raises OtherException
   \<and> ex_failing_then_synced \<lparr>cls = NetEaseProvider, oid = 1\<rparr> ''Song'' ''Artist'' = Returns None
   \<and> acceptable ex_failing_then_synced \<lparr>cls = MegalobizProvider, oid = 2\<rparr> ''Song'' ''Artist'' True
   \<and> search ex_failing_then_synced \<lparr>providers = ex_providers\<rparr> ''Song'' ''Artist'' True
       = Some \<lparr>track = ''Song'', artist = ''Artist'', lrc = ''[00:02.00]Later'',
               lines = [\<lparr>timestamp = ''[00:02.00]'', line_text = ''Later'', milliseconds = 2000\<rparr>],
               source = ''megalobiz''\<rparr>
   \<and> search ex_failing_then_synced \<lparr>providers = ex_providers\<rparr> ''Song'' ''Artist'' True
       = search ex_failing_then_synced \<lparr>providers = tl ex_providers\<rparr> ''Song'' ''Artist'' True
   \<and> search ex_failing_then_synced \<lparr>providers = tl ex_providers\<rparr> ''Song'' ''Artist'' True
       = Some \<lparr>track = ''Song'', artist = ''Artist'', lrc = ''[00:02.00]Later'',
               lines = [\<lparr>timestamp = ''[00:02.00]'', line_text = ''Later'', milliseconds = 2000\<rparr>],
               source = ''megalobiz''\<rparr>
   \<and> \<not> acceptable ex_all_failing \<lparr>cls = LrcLibProvider, oid = 0\<rparr> ''Song'' ''Artist'' False
   \<and> \<not> acceptable ex_all_failing \<lparr>cls = NetEaseProvider, oid = 1\<rparr> ''Song'' ''Artist'' False
   \<and> \<not> acceptable ex_all_failing \<lparr>cls = MegalobizProvider, oid = 2\<rparr> ''Song'' ''Artist'' False
   \<and> search ex_all_failing \<lparr>providers = ex_providers\<rparr> ''Song'' ''Artist'' False = None"
proof -
  let ?p0 = "\<lparr>cls = LrcLibProvider, oid = 0\<rparr>"
  let ?p1 = "\<lparr>cls = NetEaseProvider, oid = 1\<rparr>"
  let ?p2 = "\<lparr>cls = MegalobizProvider, oid = 2\<rparr>"
  let ?d = "\<lparr>track = ''Song'', artist = ''Artist'', lrc = ''[00:02.00]Later'',
               lines = [\<lparr>timestamp = ''[00:02.00]'', line_text = ''Later'', milliseconds = 2000\<rparr>],
               source = ''megalobiz''\<rparr>"
  have g0: "ex_failing_then_synced ?p0 ''Song'' ''Artist'' = Raises OtherException"
    by (simp add: ex_failing_then_synced_def)
  have g1: "ex_failing_then_synced ?p1 ''Song'' ''Artist'' = Returns None"
    by (simp add: ex_failing_then_synced_def)
  have g2: "ex_failing_then_synced ?p2 ''Song'' ''Artist'' = Returns (Some ''[00:02.00]Later'')"
    by (simp add: ex_failing_then_synced_def)
  have a2: "acceptable ex_failing_then_synced ?p2 ''Song'' ''Artist'' True"
    by (simp add: acceptable_def raw_text_def ex_failing_then_synced_def isdigit_def)
  have sy: "is_synced ''[00:02.00]Later''" by (simp add: isdigit_def)
  note A = search_skips_failures [of ex_failing_then_synced ?p0 "''Song''" "''Artist''"
      OtherException "[]" "''lrclib''" "tl ex_providers" True "\<lparr>providers = ex_providers\<rparr>"
      "[(''lrclib'', ?p0), (''netease'', ?p1)]" ?p2 "''megalobiz''" "[]"]
  have fs: "\<forall>(n', p') \<in> set [(''lrclib'', ?p0), (''netease'', ?p1)].
              ex_failing_then_synced p' ''Song'' ''Artist'' = Returns None
              \<or> (\<exists>e'. ex_failing_then_synced p' ''Song'' ''Artist'' = Raises e')"
    using g0 g1 by simp
  have full: "search ex_failing_then_synced \<lparr>providers = ex_providers\<rparr> ''Song'' ''Artist'' True
                = Some ?d"
  proof -
    from A [THEN conjunct2, THEN conjunct2] fs a2 obtain s ls where
      r: "ex_failing_then_synced ?p2 ''Song'' ''Artist'' = Returns (Some s)"
        "if is_synced s then parse_lrc s = Inr ls else ls = []"
        "search ex_failing_then_synced
           \<lparr>providers = [(''lrclib'', ?p0), (''netease'', ?p1)] @ (''megalobiz'', ?p2) # []\<rparr>
           ''Song'' ''Artist'' True
         = Some \<lparr>track = ''Song'', artist = ''Artist'', lrc = s, lines = ls,
                  source = ''megalobiz''\<rparr>"
      by blast
    from r(1) g2 have s: "s = ''[00:02.00]Later''" by simp
    from r(2) sy have "parse_lrc ''[00:02.00]Later'' = Inr ls" unfolding s by simp
    then have "ls = [\<lparr>timestamp = ''[00:02.00]'', line_text = ''Later'', milliseconds = 2000\<rparr>]"
      unfolding ex_later by simp
    with r(3) s show ?thesis by (simp add: ex_providers_def)
  qed
  have skip: "search ex_failing_then_synced \<lparr>providers = ex_providers\<rparr> ''Song'' ''Artist'' True
       = search ex_failing_then_synced \<lparr>providers = tl ex_providers\<rparr> ''Song'' ''Artist'' True"
    using A [THEN conjunct1] g0 by (simp add: ex_providers_def)
  have rest: "search ex_failing_then_synced \<lparr>providers = tl ex_providers\<rparr> ''Song'' ''Artist'' True
                = Some ?d"
    using skip full by simp
  have a: "\<not> acceptable ex_all_failing ?p0 ''Song'' ''Artist'' False"
    "\<not> acceptable ex_all_failing ?p1 ''Song'' ''Artist'' False"
    "\<not> acceptable ex_all_failing ?p2 ''Song'' ''Artist'' False"
    by (simp_all add: acceptable_def raw_text_def ex_all_failing_def)
  note B = search_skips_failures [of ex_all_failing ?p0 "''Song''" "''Artist''"
      OtherException "[]" "''lrclib''" "tl ex_providers" False "\<lparr>providers = ex_providers\<rparr>"]
  have none: "search ex_all_failing \<lparr>providers = ex_providers\<rparr> ''Song'' ''Artist'' False = None"
    using B [THEN conjunct2, THEN conjunct1] a by (simp add: ex_providers_def)
  show ?thesis by (intro conjI) (rule g0 g1 a2 full skip rest a none)+
qed

theorem search_all_one_per_producing_provider_witness:
  "map (\<lambda>d. (source d, lrc d))
     (search_all ex_plain_then_synced \<lparr>providers = ex_providers\<rparr> ''Song'' ''Artist'')
     = [(''lrclib'', ''Just plain text''), (''netease'', ''[00:01.00]Hello''),
        (''megalobiz'', ''[00:02.00]Later'')]
   \<and> search_all ex_plain_then_synced \<lparr>providers = ex_providers\<rparr> ''Song'' ''Artist''
       = [\<lparr>track = ''Song'', artist = ''Artist'', lrc = ''Just plain text'', lines = [],
            source = ''lrclib''\<rparr>,
          \<lparr>track = ''Song'', artist = ''Artist'', lrc = ''[00:01.00]Hello'',
            lines = [\<lparr>timestamp = ''[00:01.00]'', line_text = ''Hello'', milliseconds = 1000\<rparr>],
            source = ''netease''\<rparr>,
          \<lparr>track = ''Song'', artist = ''Artist'', lrc = ''[00:02.00]Later'',
            lines = [\<lparr>timestamp = ''[00:02.00]'', line_text = ''Later'', milliseconds = 2000\<rparr>],
            source = ''megalobiz''\<rparr>]"
proof -
  have e: "search_all ex_plain_then_synced \<lparr>providers = ex_providers\<rparr> ''Song'' ''Artist''
       = [\<lparr>track = ''Song'', artist = ''Artist'', lrc = ''Just plain text'', lines = [],
            source = ''lrclib''\<rparr>,
          \<lparr>track = ''Song'', artist = ''Artist'', lrc = ''[00:01.00]Hello'',
            lines = [\<lparr>timestamp = ''[00:01.00]'', line_text = ''Hello'', milliseconds = 1000\<rparr>],
            source = ''netease''\<rparr>,
          \<lparr>track = ''Song'', artist = ''Artist'', lrc = ''[00:02.00]Later'',
            lines = [\<lparr>timestamp = ''[00:02.00]'', line_text = ''Later'', milliseconds = 2000\<rparr>],
            source = ''megalobiz''\<rparr>]"
    by (simp add: search_all_def ex_providers_def ex_plain_then_synced_def isdigit_def
        parsed_lines_def ex_hello ex_later)
  from search_all_one_per_producing_provider [of ex_plain_then_synced
      "\<lparr>providers = ex_providers\<rparr>" "''Song''" "''Artist''"] e
  show ?thesis by (simp add: ex_providers_def raw_text_def ex_plain_then_synced_def)
qed

theorem empty_text_is_absence_witness:
  "ex_empty_then_plain \<lparr>cls = LrcLibProvider, oid = 0\<rparr> ''Song'' ''Artist'' = Returns (Some [])
   \<and> search ex_empty_then_plain \<lparr>providers = ex_providers\<rparr> ''Song'' ''Artist'' False
       = search ex_empty_then_plain \<lparr>providers = tl ex_providers\<rparr> ''Song'' ''Artist'' False
   \<and> search_all ex_empty_then_plain \<lparr>providers = ex_providers\<rparr> ''Song'' ''Artist''
       = search_all ex_empty_then_plain \<lparr>providers = tl ex_providers\<rparr> ''Song'' ''Artist''
   \<and> search ex_empty_then_plain \<lparr>providers = ex_providers\<rparr> ''Song'' ''Artist'' False
       = Some \<lparr>track = ''Song'', artist = ''Artist'', lrc = ''Just plain text'', lines = [],
               source = ''netease''\<rparr>
   \<and> search_all ex_empty_then_plain \<lparr>providers = ex_providers\<rparr> ''Song'' ''Artist''
       = [\<lparr>track = ''Song'', artist = ''Artist'', lrc = ''Just plain text'', lines = [],
            source = ''netease''\<rparr>]
   \<and> ''Just plain text'' \<noteq> []"
proof -
  let ?d = "\<lparr>track = ''Song'', artist = ''Artist'', lrc = ''Just plain text'', lines = [],
               source = ''netease''\<rparr>"
  have g: "ex_empty_then_plain \<lparr>cls = LrcLibProvider, oid = 0\<rparr> ''Song'' ''Artist'' = Returns (Some [])"
    by (simp add: ex_empty_then_plain_def)
  have e1: "search ex_empty_then_plain \<lparr>providers = ex_providers\<rparr> ''Song'' ''Artist'' False = Some ?d"
    by (simp add: search_def ex_providers_def ex_empty_then_plain_def parsed_lines_def)
  have e2: "search_all ex_empty_then_plain \<lparr>providers = ex_providers\<rparr> ''Song'' ''Artist'' = [?d]"
    by (simp add: search_all_def ex_providers_def ex_empty_then_plain_def parsed_lines_def)
  from empty_text_is_absence [of ex_empty_then_plain "\<lparr>providers = ex_providers\<rparr>"
      "''Song''" "''Artist''" False "\<lparr>cls = LrcLibProvider, oid = 0\<rparr>" "[]" "''lrclib''"
      "tl ex_providers" ?d] g e1 e2
  show ?thesis by (simp add: ex_providers_def)
qed

end
